theory Spec2Isabelle
  imports Complex_Main "HOL-Library.Sublist"
begin

section \<open>Python values used by the tools\<close>

text \<open>
  A Python number, as far as comparison and truthiness can tell: an \<open>int\<close> \<open>n\<close> is
  \<open>Num (of_int n)\<close>, a finite \<open>float\<close> is \<open>Num\<close> of its exact value, and the three
  special floats are \<open>PosInf\<close>, \<open>NegInf\<close> and \<open>NaN\<close>. Python compares an int with a
  float exactly, so nothing is lost for \<open><=\<close> and \<open>>\<close>.
\<close>

datatype pynum = Num real | PosInf | NegInf | NaN

text \<open>\<open>a <= b\<close> on Python numbers: every comparison with \<open>nan\<close> is false.\<close>

fun py_le :: "pynum \<Rightarrow> pynum \<Rightarrow> bool" where
  "py_le NaN _ = False"
| "py_le _ NaN = False"
| "py_le NegInf _ = True"
| "py_le _ PosInf = True"
| "py_le (Num a) (Num b) = (a \<le> b)"
| "py_le (Num a) NegInf = False"
| "py_le PosInf (Num b) = False"
| "py_le PosInf NegInf = False"

text \<open>\<open>a > b\<close> on Python numbers.\<close>

fun py_gt :: "pynum \<Rightarrow> pynum \<Rightarrow> bool" where
  "py_gt NaN _ = False"
| "py_gt _ NaN = False"
| "py_gt PosInf PosInf = False"
| "py_gt PosInf _ = True"
| "py_gt _ PosInf = False"
| "py_gt NegInf _ = False"
| "py_gt (Num a) NegInf = True"
| "py_gt (Num a) (Num b) = (a > b)"

text \<open>Truthiness of a number: only zero is false (\<open>nan\<close> is true).\<close>

fun truthy :: "pynum \<Rightarrow> bool" where
  "truthy (Num a) = (a \<noteq> 0)"
| "truthy _ = True"

text \<open>The exceptions the modelled code can meet. Each of them is an \<open>Exception\<close>.\<close>

datatype pyerr = ValueError | TypeError | OverflowError | RecursionError | OSError

subsection \<open>Strings\<close>

text \<open>
  Strings are lists of characters. \<open>lower\<close> is \<open>str.lower\<close> on ASCII text: the
  letters \<open>A\<close> to \<open>Z\<close> map to \<open>a\<close> to \<open>z\<close>, every other character is kept.
  It serves where only ASCII letters matter: for the test of the suffix \<open>.wav\<close> in
  \<open>cmd_transcribe\<close>, and in the examples. \<open>filter_videos\<close>, which lowers titles
  and keywords of any script, takes \<open>str.lower\<close> as a parameter instead.
\<close>

definition lower_char :: "char \<Rightarrow> char" where
  "lower_char c =
     (case map_of (zip ''ABCDEFGHIJKLMNOPQRSTUVWXYZ'' ''abcdefghijklmnopqrstuvwxyz'') c of
        Some l \<Rightarrow> l
      | None \<Rightarrow> c)"

definition lower :: "string \<Rightarrow> string" where
  "lower s = map lower_char s"

text \<open>\<open>needle in hay\<close> for strings: \<open>needle\<close> occurs as a contiguous run.\<close>

fun py_in :: "string \<Rightarrow> string \<Rightarrow> bool" where
  "py_in needle [] = (needle = [])"
| "py_in needle (c # cs) = (prefix needle (c # cs) \<or> py_in needle cs)"

text \<open>\<open>s.startswith(p)\<close> and \<open>s.endswith(suf)\<close>.\<close>

definition startswith :: "string \<Rightarrow> string \<Rightarrow> bool" where
  "startswith s p = prefix p s"

definition endswith :: "string \<Rightarrow> string \<Rightarrow> bool" where
  "endswith s suf = prefix (rev suf) (rev s)"

section \<open>download.py\<close>

subsection \<open>filter_videos\<close>

text \<open>
  A video entry as \<open>list_videos\<close> builds it: a dict with the three string fields
  \<open>id\<close>, \<open>duration\<close> and \<open>title\<close>. All three keys are present, so
  \<open>v["duration"]\<close> finds its key and the default of \<open>v.get("title", "")\<close> is
  never taken.
\<close>

record video =
  vid :: string
  duration :: string
  title :: string

text \<open>
  The filter dict. Each key may be missing; \<open>None\<close> stands for a missing key and for
  the Python value \<open>None\<close> alike, which \<open>filter_videos\<close> does not tell apart
  (\<open>filters.get("min_duration", 0)\<close>, \<open>filters.get("max_duration")\<close>,
  \<open>filters.get("keywords")\<close> are only tested for truth).
\<close>

record filters =
  keyword_list :: "string list option"
  min_duration :: "pynum option"
  max_duration :: "pynum option"

text \<open>
  Lines 12 to 15. The builtin \<open>float\<close> on a string is the parameter \<open>pf\<close>:
  \<open>None\<close> is its \<open>ValueError\<close>. The field is a string, so no \<open>TypeError\<close> arises.
\<close>

definition parse_duration :: "(string \<Rightarrow> pynum option) \<Rightarrow> video \<Rightarrow> pynum" where
  "parse_duration pf v =
     (if duration v \<noteq> ''NA''
      then (case pf (duration v) of Some d \<Rightarrow> d | None \<Rightarrow> Num 0)
      else Num 0)"

text \<open>Lines 17 to 19: the entry is skipped by the minimum check.\<close>

definition below_min :: "filters \<Rightarrow> pynum \<Rightarrow> bool" where
  "below_min fs d =
     (case min_duration fs of
        None \<Rightarrow> False
      | Some min_dur \<Rightarrow> truthy min_dur \<and> py_le d min_dur)"

text \<open>Lines 21 to 23: the entry is skipped by the maximum check.\<close>

definition above_max :: "filters \<Rightarrow> pynum \<Rightarrow> bool" where
  "above_max fs d =
     (case max_duration fs of
        None \<Rightarrow> False
      | Some max_dur \<Rightarrow> truthy max_dur \<and> py_gt d max_dur)"

text \<open>
  Lines 25 to 28: the entry is skipped by the keyword check. \<open>str.lower\<close> is the
  parameter \<open>lw\<close>: it maps the letters of every script, which no table here lists.
\<close>

definition lacks_keyword :: "(string \<Rightarrow> string) \<Rightarrow> filters \<Rightarrow> video \<Rightarrow> bool" where
  "lacks_keyword lw fs v =
     (case keyword_list fs of
        None \<Rightarrow> False
      | Some kws \<Rightarrow> kws \<noteq> [] \<and> \<not> list_all (\<lambda>kw. py_in (lw kw) (lw (title v))) kws)"

text \<open>The loop of lines 11 to 30, with \<open>result\<close> as the accumulator.\<close>

fun filter_loop ::
  "(string \<Rightarrow> pynum option) \<Rightarrow> (string \<Rightarrow> string) \<Rightarrow> filters \<Rightarrow> video list \<Rightarrow> video list
     \<Rightarrow> video list" where
  "filter_loop pf lw fs [] result = result"
| "filter_loop pf lw fs (v # vs) result =
     (let d = parse_duration pf v in
      if below_min fs d then filter_loop pf lw fs vs result
      else if above_max fs d then filter_loop pf lw fs vs result
      else if lacks_keyword lw fs v then filter_loop pf lw fs vs result
      else filter_loop pf lw fs vs (result @ [v]))"

definition filter_videos ::
  "(string \<Rightarrow> pynum option) \<Rightarrow> (string \<Rightarrow> string) \<Rightarrow> video list \<Rightarrow> filters \<Rightarrow> video list" where
  "filter_videos pf lw videos fs = filter_loop pf lw fs videos []"

text \<open>
  The builtin \<open>float\<close> on the strings used in the examples below: a run of at most 15
  decimal digits (every such integer is a double, so the value is exact) and \<open>nan\<close>.
  On any other string it answers \<open>None\<close>; the general theorems hold for every parser
  and every lowering function.
\<close>

definition digit_val :: "char \<Rightarrow> nat" where
  "digit_val c = (of_char c :: nat) - 48"

definition is_digit :: "char \<Rightarrow> bool" where
  "is_digit c = (48 \<le> (of_char c :: nat) \<and> (of_char c :: nat) \<le> 57)"

definition nat_of_dec :: "string \<Rightarrow> nat" where
  "nat_of_dec s = foldl (\<lambda>acc c. 10 * acc + digit_val c) 0 s"

definition float_small :: "string \<Rightarrow> pynum option" where
  "float_small s =
     (if s = ''nan'' then Some NaN
      else if s \<noteq> [] \<and> length s \<le> 15 \<and> list_all is_digit s
      then Some (Num (of_nat (nat_of_dec s)))
      else None)"

subsection \<open>format_duration\<close>

text \<open>
  \<open>int(seconds)\<close>: truncation towards zero of a finite number; \<open>nan\<close> raises
  \<open>ValueError\<close> and an infinity raises \<open>OverflowError\<close>.
\<close>

definition py_int :: "pynum \<Rightarrow> pyerr + int" where
  "py_int x =
     (case x of
        Num r \<Rightarrow> Inr (if 0 \<le> r then \<lfloor>r\<rfloor> else - \<lfloor>- r\<rfloor>)
      | PosInf \<Rightarrow> Inl OverflowError
      | NegInf \<Rightarrow> Inl OverflowError
      | NaN \<Rightarrow> Inl ValueError)"

text \<open>The decimal digits of a natural number, as \<open>str\<close> and the \<open>d\<close> format print them.\<close>

definition digit_char :: "nat \<Rightarrow> char" where
  "digit_char d = ''0123456789'' ! d"

fun dec :: "nat \<Rightarrow> string" where
  "dec n = (if n < 10 then [digit_char n] else dec (n div 10) @ [digit_char (n mod 10)])"

declare dec.simps [simp del]

text \<open>
  The format \<open>02d\<close>: zero padding to width two. The sign counts for the width, so a
  negative number is printed as it is.
\<close>

definition fmt_02d :: "int \<Rightarrow> string" where
  "fmt_02d n =
     (if n < 0 then CHR ''-'' # dec (nat (- n))
      else if n < 10 then CHR ''0'' # dec (nat n)
      else dec (nat n))"

text \<open>Lines 79 and 80; \<open>divmod\<close> on Python ints is floor division, as \<open>div\<close> and \<open>mod\<close> on \<open>int\<close>.\<close>

definition format_duration :: "pynum \<Rightarrow> pyerr + string" where
  "format_duration seconds =
     (case py_int seconds of
        Inl e \<Rightarrow> Inl e
      | Inr n \<Rightarrow> (let mins = n div 60; secs = n mod 60
                 in Inr (fmt_02d mins @ '':'' @ fmt_02d secs)))"

text \<open>
  A full match of the pattern \<open>\d{2,}:\d{2}\<close>: the longest run of leading digits has at
  least two characters, a colon follows, and exactly two digits end the string.
\<close>

definition mmss_pattern :: "string \<Rightarrow> bool" where
  "mmss_pattern s =
     (let ms = takeWhile is_digit s in
      2 \<le> length ms \<and>
      (case dropWhile is_digit s of
         [] \<Rightarrow> False
       | c # ss \<Rightarrow> c = CHR '':'' \<and> length ss = 2 \<and> list_all is_digit ss))"

subsection \<open>download_videos: the format selection\<close>

text \<open>Lines 59 to 62: the value of \<open>fmt\<close> for a resolution token.\<close>

definition download_videos_fmt :: "string \<Rightarrow> string" where
  "download_videos_fmt resolution =
     (if resolution = ''best''
      then ''bestvideo+bestaudio[ext=m4a]/bestvideo+bestaudio/best''
      else ''bestvideo[height<='' @ resolution @ '']+bestaudio[ext=m4a]/bestvideo[height<=''
           @ resolution @ '']+bestaudio/best[height<='' @ resolution @ '']'')"

text \<open>
  \<open>s.split(sep)\<close> for a one-character separator. The downloader reads \<open>/\<close> as the
  separator of the fallback tiers of a format selection.
\<close>

fun py_split :: "char \<Rightarrow> string \<Rightarrow> string list" where
  "py_split sep [] = [[]]"
| "py_split sep (c # cs) =
     (if c = sep then [] # py_split sep cs
      else (case py_split sep cs of
              [] \<Rightarrow> [[c]]
            | part # parts \<Rightarrow> (c # part) # parts))"

section \<open>transcribe.py\<close>

subsection \<open>The values to_jsonable inspects\<close>

text \<open>
  A dict key. Keys of the types whose \<open>str\<close> is known are kept as they are; any other
  hashable value (a float, a tuple, an object) is \<open>KOther\<close> with what \<open>str\<close> does on
  it: the text it returns, or the exception its \<open>__str__\<close> raises.
\<close>

datatype pykey = KNone | KBool bool | KInt int | KStr string | KOther "pyerr + string"

definition str_int :: "int \<Rightarrow> string" where
  "str_int n = (if n < 0 then CHR ''-'' # dec (nat (- n)) else dec (nat n))"

text \<open>\<open>str(k)\<close> for a dict key.\<close>

fun py_str :: "pykey \<Rightarrow> pyerr + string" where
  "py_str KNone = Inr ''None''"
| "py_str (KBool b) = Inr (if b then ''True'' else ''False'')"
| "py_str (KInt n) = Inr (str_int n)"
| "py_str (KStr s) = Inr s"
| "py_str (KOther r) = r"

text \<open>
  The values \<open>to_jsonable\<close> returns: it builds lists and dicts anew, passes None, bools,
  numbers and strings on, and hands out what numpy's \<open>item()\<close> and \<open>tolist()\<close>
  return, which may be a tuple or any other object (\<open>POther\<close> with its \<open>repr\<close>, a
  complex number for one).
\<close>

datatype pyval =
    PNone
  | PBool bool
  | PInt int
  | PFloat pynum
  | PStr string
  | PList "pyval list"
  | PTuple "pyval list"
  | PDict "(pykey \<times> pyval) list"
  | POther string

text \<open>
  The argument of \<open>to_jsonable\<close>. Python containers and objects are references, so a
  value can contain itself: it is an address in a store of objects whose parts are
  addresses again. A list, a tuple and a set hold their elements in iteration order, a
  dict its items in insertion order. Every other object is an \<open>HObject\<close>, described by
  what the tests and calls of lines 155 to 176 observe of it:
  \<^item> \<open>asdict\<close>: \<open>Some r\<close> when \<open>is_dataclass(obj)\<close> holds, \<open>r\<close> being what
    \<open>asdict(obj)\<close> does (it raises \<open>TypeError\<close> on a dataclass type, for which
    \<open>is_dataclass\<close> holds too);
  \<^item> \<open>np_item\<close>: \<open>Some r\<close> when \<open>obj\<close> is a \<open>np.generic\<close>, \<open>r\<close> being what
    \<open>obj.item()\<close> does;
  \<^item> \<open>np_tolist\<close>: \<open>Some r\<close> when \<open>obj\<close> is a \<open>np.ndarray\<close>, \<open>r\<close> being what
    \<open>obj.tolist()\<close> does;
  \<^item> \<open>to_dict\<close>: what \<open>getattr(obj, "to_dict", None)\<close> does: it raises, or it
    returns; \<open>Some r\<close> when what it returns is callable, \<open>r\<close> being what the call
    does;
  \<^item> \<open>vars\<close>: what \<open>hasattr(obj, "__dict__")\<close> does: it raises, or it returns;
    \<open>Some items\<close> when it is true, with the items of \<open>vars(obj)\<close>;
  \<^item> \<open>repr\<close>: what \<open>repr(obj)\<close> does.
\<close>

type_synonym addr = nat

datatype hobj =
    HNone
  | HBool bool
  | HInt int
  | HFloat pynum
  | HStr string
  | HList "addr list"
  | HTuple "addr list"
  | HSet "addr list"
  | HDict "(pykey \<times> addr) list"
  | HObject
      (asdict: "(pyerr + addr) option")
      (np_item: "(pyerr + pyval) option")
      (np_tolist: "(pyerr + pyval) option")
      (to_dict: "pyerr + (pyerr + addr) option")
      (vars: "pyerr + (string \<times> addr) list option")
      (repr: "pyerr + string")

subsection \<open>Comprehensions and the try blocks\<close>

text \<open>A list comprehension over results: the first exception leaves it.\<close>

fun collect :: "(pyerr + 'a) list \<Rightarrow> pyerr + 'a list" where
  "collect [] = Inr []"
| "collect (r # rs) =
     (case r of
        Inl e \<Rightarrow> Inl e
      | Inr x \<Rightarrow> (case collect rs of Inl e \<Rightarrow> Inl e | Inr xs \<Rightarrow> Inr (x # xs)))"

text \<open>
  \<open>d[k] = v\<close> on a dict kept as the list of its items: a key that is present keeps its
  place and takes the new value, a new key goes to the end.
\<close>

fun dict_set :: "('k \<times> 'v) list \<Rightarrow> 'k \<Rightarrow> 'v \<Rightarrow> ('k \<times> 'v) list" where
  "dict_set [] k v = [(k, v)]"
| "dict_set ((k', v') # rest) k v =
     (if k' = k then (k', v) # rest else (k', v') # dict_set rest k v)"

text \<open>A dict comprehension stores its items one after the other into an empty dict.\<close>

definition dict_build :: "('k \<times> 'v) list \<Rightarrow> ('k \<times> 'v) list \<Rightarrow> ('k \<times> 'v) list" where
  "dict_build d items = foldl (\<lambda>d (k, v). dict_set d k v) d items"

definition dict_of :: "('k \<times> 'v) list \<Rightarrow> ('k \<times> 'v) list" where
  "dict_of items = dict_build [] items"

text \<open>
  \<open>try: return r / except Exception: pass\<close>: a value is returned, an exception is
  swallowed and the code goes on (\<open>None\<close>). Every \<open>pyerr\<close> is an \<open>Exception\<close>.
\<close>

definition guarded :: "pyerr + 'a \<Rightarrow> (pyerr + 'a) option" where
  "guarded r = (case r of Inr v \<Rightarrow> Some (Inr v) | Inl e \<Rightarrow> None)"

text \<open>One step of the chain of attempts: what the attempt returned, or the rest.\<close>

definition or_else :: "'a option \<Rightarrow> 'a \<Rightarrow> 'a" where
  "or_else attempt rest = (case attempt of Some out \<Rightarrow> out | None \<Rightarrow> rest)"

subsection \<open>to_jsonable\<close>

text \<open>
  Lines 147 to 176, on the object at address \<open>a\<close> of the store \<open>h\<close>. \<open>np\<close> tells
  whether the module \<open>numpy\<close> was imported (\<open>np is not None\<close>). The interpreter bounds
  the depth of nested calls: \<open>depth\<close> is the number of nested calls of \<open>to_jsonable\<close>
  still allowed, and a call beyond it raises \<open>RecursionError\<close>, an \<open>Exception\<close> like
  any other. What is called outside a \<open>try\<close> raises through: \<open>str(k)\<close> (line 154),
  \<open>asdict\<close> (line 156), \<open>getattr\<close> (line 165), \<open>hasattr\<close> (line 171), \<open>repr\<close>
  (line 176) and the recursive calls of lines 152, 154 and 156.
\<close>

fun to_jsonable :: "bool \<Rightarrow> (addr \<Rightarrow> hobj) \<Rightarrow> nat \<Rightarrow> addr \<Rightarrow> pyerr + pyval" where
  "to_jsonable np h 0 a = Inl RecursionError"
| "to_jsonable np h (Suc depth) a =
     (case h a of
        HNone \<Rightarrow> Inr PNone
      | HBool b \<Rightarrow> Inr (PBool b)
      | HInt n \<Rightarrow> Inr (PInt n)
      | HFloat x \<Rightarrow> Inr (PFloat x)
      | HStr s \<Rightarrow> Inr (PStr s)
      | HList xs \<Rightarrow>
          (case collect (map (to_jsonable np h depth) xs) of
             Inl e \<Rightarrow> Inl e | Inr ys \<Rightarrow> Inr (PList ys))
      | HTuple xs \<Rightarrow>
          (case collect (map (to_jsonable np h depth) xs) of
             Inl e \<Rightarrow> Inl e | Inr ys \<Rightarrow> Inr (PList ys))
      | HSet xs \<Rightarrow>
          (case collect (map (to_jsonable np h depth) xs) of
             Inl e \<Rightarrow> Inl e | Inr ys \<Rightarrow> Inr (PList ys))
      | HDict kvs \<Rightarrow>
          (case collect (map (\<lambda>(k, v). case py_str k of
                                         Inl e \<Rightarrow> Inl e
                                       | Inr s \<Rightarrow> (case to_jsonable np h depth v of
                                                    Inl e \<Rightarrow> Inl e
                                                  | Inr j \<Rightarrow> Inr (KStr s, j))) kvs) of
             Inl e \<Rightarrow> Inl e
           | Inr items \<Rightarrow> Inr (PDict (dict_of items)))
      | HObject dc item tolist td vs rp \<Rightarrow>
          (case dc of
             Some (Inl e) \<Rightarrow> Inl e
           | Some (Inr d) \<Rightarrow> to_jsonable np h depth d
           | None \<Rightarrow>
              or_else (if np then (case item of
                                     Some r \<Rightarrow> guarded r
                                   | None \<Rightarrow> (case tolist of Some r \<Rightarrow> guarded r | None \<Rightarrow> None))
                       else None)
             (case td of
                Inl e \<Rightarrow> Inl e
              | Inr callable \<Rightarrow>
                 or_else (case callable of
                            Some (Inl e) \<Rightarrow> None
                          | Some (Inr d) \<Rightarrow> guarded (to_jsonable np h depth d)
                          | None \<Rightarrow> None)
                (case vs of
                   Inl e \<Rightarrow> Inl e
                 | Inr has_dict \<Rightarrow>
                    or_else (case has_dict of
                               Some items \<Rightarrow>
                                 guarded
                                   (case collect
                                           (map (\<lambda>(k, v). case to_jsonable np h depth v of
                                                             Inl e \<Rightarrow> Inl e
                                                           | Inr j \<Rightarrow> Inr (KStr k, j))
                                              (filter (\<lambda>(k, v). \<not> startswith k ''_'') items)) of
                                      Inl e \<Rightarrow> Inl e
                                    | Inr items' \<Rightarrow> Inr (PDict (dict_of items')))
                             | None \<Rightarrow> None)
                   (case rp of Inl e \<Rightarrow> Inl e | Inr s \<Rightarrow> Inr (PStr s))))))"

subsection \<open>JSON-safe values\<close>

fun is_str_key :: "pykey \<Rightarrow> bool" where
  "is_str_key (KStr s) = True"
| "is_str_key _ = False"

text \<open>
  A JSON-safe tree: null, a boolean, a number, a string, an array of such values, or an
  object with string keys (a dict, so no key twice) and such values.
\<close>

fun json_safe :: "pyval \<Rightarrow> bool" where
  "json_safe PNone = True"
| "json_safe (PBool b) = True"
| "json_safe (PInt n) = True"
| "json_safe (PFloat x) = True"
| "json_safe (PStr s) = True"
| "json_safe (PList xs) = list_all json_safe xs"
| "json_safe (PDict kvs) =
     (distinct (map fst kvs) \<and> list_all (\<lambda>(k, v). is_str_key k \<and> json_safe v) kvs)"
| "json_safe _ = False"

text \<open>
  The object at address \<open>a\<close> of the store \<open>h\<close> is the plain value \<open>v\<close>: the two
  agree at \<open>a\<close>, and so do their parts, part by part.
\<close>

fun stored :: "(addr \<Rightarrow> hobj) \<Rightarrow> pyval \<Rightarrow> addr \<Rightarrow> bool" where
  "stored h PNone a = (h a = HNone)"
| "stored h (PBool b) a = (h a = HBool b)"
| "stored h (PInt n) a = (h a = HInt n)"
| "stored h (PFloat x) a = (h a = HFloat x)"
| "stored h (PStr s) a = (h a = HStr s)"
| "stored h (PList vs) a = (case h a of HList xs \<Rightarrow> list_all2 (stored h) vs xs | _ \<Rightarrow> False)"
| "stored h (PTuple vs) a = (case h a of HTuple xs \<Rightarrow> list_all2 (stored h) vs xs | _ \<Rightarrow> False)"
| "stored h (PDict kvs) a =
     (case h a of
        HDict kxs \<Rightarrow> list_all2 (\<lambda>(k, v) (k', x). k = k' \<and> stored h v x) kvs kxs
      | _ \<Rightarrow> False)"
| "stored h (POther s) a = False"

text \<open>
  The number of nested calls \<open>to_jsonable\<close> makes on a plain value: one for the value,
  and for a container those of its deepest part on top.
\<close>

fun nesting :: "pyval \<Rightarrow> nat" where
  "nesting (PList vs) = Suc (foldr max (map nesting vs) 0)"
| "nesting (PTuple vs) = Suc (foldr max (map nesting vs) 0)"
| "nesting (PDict kvs) = Suc (foldr max (map (\<lambda>(k, v). nesting v) kvs) 0)"
| "nesting _ = Suc 0"

text \<open>The call returned.\<close>

definition returned :: "pyerr + 'a \<Rightarrow> bool" where
  "returned r = (case r of Inl e \<Rightarrow> False | Inr v \<Rightarrow> True)"





text \<open>Lists nested \<open>n\<close> deep around None, the outermost at address 0.\<close>

definition nested_store :: "nat \<Rightarrow> addr \<Rightarrow> hobj" where
  "nested_store n = (\<lambda>a. if a < n then HList [Suc a] else HNone)"

fun nested_list :: "nat \<Rightarrow> pyval" where
  "nested_list 0 = PNone"
| "nested_list (Suc n) = PList [nested_list n]"

text \<open>The dict \<open>{1: "a", "1": "b"}\<close>, at address 0.\<close>

definition two_keys :: "addr \<Rightarrow> hobj" where
  "two_keys =
     (\<lambda>a. HNone)(0 := HDict [(KInt 1, 1), (KStr ''1'', 2)], 1 := HStr ''a'', 2 := HStr ''b'')"







text \<open>
  A store of plain values: at address 0 the dict
  \<open>{"text": "hi", "segments": [{"start": 0.0}, None]}\<close>.
\<close>

definition plain_store :: "addr \<Rightarrow> hobj" where
  "plain_store =
     (\<lambda>a. HNone)
       (0 := HDict [(KStr ''text'', 1), (KStr ''segments'', 2)],
        1 := HStr ''hi'',
        2 := HList [3, 4],
        3 := HDict [(KStr ''start'', 5)],
        5 := HFloat (Num 0))"

text \<open>The dict \<open>{1: "a", "1": "b", None: None}\<close>, at address 0.\<close>

definition three_keys :: "addr \<Rightarrow> hobj" where
  "three_keys =
     (\<lambda>a. HNone)(0 := HDict [(KInt 1, 1), (KStr ''1'', 2), (KNone, 3)],
                  1 := HStr ''a'', 2 := HStr ''b'')"

section \<open>cli.py\<close>

subsection \<open>os.path on POSIX\<close>

text \<open>\<open>s.rfind(c)\<close>: the last index of \<open>c\<close> in \<open>s\<close>, or -1.\<close>

definition rfind :: "char \<Rightarrow> string \<Rightarrow> int" where
  "rfind c s =
     (if c \<in> set s then int (length s) - 1 - int (length (takeWhile (\<lambda>x. x \<noteq> c) (rev s)))
      else - 1)"

text \<open>\<open>os.path.basename\<close>: what follows the last slash.\<close>

definition basename :: "string \<Rightarrow> string" where
  "basename p = drop (nat (rfind CHR ''/'' p + 1)) p"

text \<open>
  \<open>os.path.splitext\<close>: the split is at the last dot, when that dot comes after the last
  slash and some character between the two is not a dot.
\<close>

definition splitext :: "string \<Rightarrow> string \<times> string" where
  "splitext p =
     (let sepIndex = rfind CHR ''/'' p; dotIndex = rfind CHR ''.'' p in
      if dotIndex > sepIndex
         \<and> \<not> list_all (\<lambda>c. c = CHR ''.'')
               (take (nat dotIndex - nat (sepIndex + 1)) (drop (nat (sepIndex + 1)) p))
      then (take (nat dotIndex) p, drop (nat dotIndex) p)
      else (p, []))"

text \<open>\<open>os.path.join\<close> of two parts.\<close>

definition path_join :: "string \<Rightarrow> string \<Rightarrow> string" where
  "path_join a b =
     (if startswith b ''/'' then b
      else if a = [] \<or> endswith a ''/'' then a @ b
      else a @ ''/'' @ b)"

subsection \<open>cmd_transcribe\<close>

text \<open>
  What \<open>cmd_transcribe\<close> does to the world is the list of its calls with an effect, in
  order. \<open>WriteFile\<close> is \<open>open(path, "w")\<close> with the write that follows; the contents
  are left out. The spinner only prints while \<open>Transcribe\<close> runs and is left out too.
\<close>

datatype action =
    PrintOut string
  | PrintErr string
  | Makedirs string
  | Copyfile string string
  | DownloadAudio string string
  | Transcribe string
  | WriteFile string

text \<open>A call may fail: with an exception, or with \<open>sys.exit\<close> (a missing ffmpeg).\<close>

datatype failure = Raise pyerr | Exit int

text \<open>How the command ends: the value it returns, or the failure that leaves it.\<close>

datatype outcome = Return int | Failed failure

text \<open>
  What the command reads of its surroundings: \<open>os.path.isfile\<close>, \<open>os.path.abspath\<close>,
  the pair \<open>download_audio_with_ytdlp\<close> returns, and which calls fail.
\<close>

record env =
  isfile :: "string \<Rightarrow> bool"
  abspath :: "string \<Rightarrow> string"
  downloaded :: "string \<Rightarrow> string \<Rightarrow> string \<times> string"
  fails :: "action \<Rightarrow> failure option"

text \<open>The calls are made in order; the first failure ends the command.\<close>

fun perform :: "(action \<Rightarrow> failure option) \<Rightarrow> action list \<Rightarrow> action list \<times> outcome" where
  "perform fl [] = ([], Return 0)"
| "perform fl (a # rest) =
     (case fl a of
        Some f \<Rightarrow> ([a], Failed f)
      | None \<Rightarrow> (case perform fl rest of (acts, out) \<Rightarrow> (a # acts, out)))"

text \<open>transcribe.py, lines 135 to 144: the two files \<open>write_transcripts\<close> writes.\<close>

definition write_transcripts :: "string \<Rightarrow> string \<Rightarrow> action list" where
  "write_transcripts output_directory base_name =
     [WriteFile (path_join output_directory (base_name @ ''.txt'')),
      WriteFile (path_join output_directory (base_name @ ''.json''))]"

text \<open>Lines 84 to 96.\<close>

definition transcribe_and_save :: "string \<Rightarrow> string \<Rightarrow> string \<Rightarrow> action list" where
  "transcribe_and_save wav_path outdir base_name =
     [Transcribe wav_path] @ write_transcripts outdir base_name @
     [PrintOut (''Saved transcript: '' @ path_join outdir (base_name @ ''.txt'')),
      PrintOut (''Saved full JSON: '' @ path_join outdir (base_name @ ''.json''))]"

text \<open>Line 61.\<close>

definition is_url :: "string \<Rightarrow> bool" where
  "is_url source = (startswith source ''http://'' \<or> startswith source ''https://'')"

text \<open>Lines 59 to 96: the calls made and the outcome.\<close>

definition cmd_transcribe :: "env \<Rightarrow> string \<Rightarrow> string \<Rightarrow> action list \<times> outcome" where
  "cmd_transcribe e source outdir =
     (if is_url source then
        (case perform (fails e)
                [PrintOut ''Downloading audio with yt-dlp ...'', DownloadAudio source outdir] of
           (acts, Failed f) \<Rightarrow> (acts, Failed f)
         | (acts, Return _) \<Rightarrow>
             (case downloaded e source outdir of
                (wav_path, base_name) \<Rightarrow>
                  (case perform (fails e) (transcribe_and_save wav_path outdir base_name) of
                     (acts', out) \<Rightarrow> (acts @ acts', out))))
      else if \<not> isfile e source then
        ([PrintErr (''Error: file not found: '' @ source)], Return 1)
      else if \<not> endswith (lower source) ''.wav'' then
        ([PrintErr (''Error: local files must be WAV. Provide a YouTube URL instead, ''
                     @ ''or convert your file to WAV (16kHz mono recommended)'')], Return 1)
      else
        (let base_name = fst (splitext (basename source));
             dest_wav_path = path_join outdir (base_name @ ''.wav'')
         in perform (fails e)
              ([Makedirs outdir]
               @ (if abspath e source \<noteq> abspath e dest_wav_path
                  then [Copyfile source dest_wav_path] else [])
               @ transcribe_and_save dest_wav_path outdir base_name)))"

text \<open>The paths a call creates or writes.\<close>

fun written :: "action \<Rightarrow> string list" where
  "written (Makedirs p) = [p]"
| "written (Copyfile src dst) = [dst]"
| "written (WriteFile p) = [p]"
| "written _ = []"

text \<open>
  Surroundings for the examples: the files of \<open>existing\<close> are there, the working
  directory is \<open>/home/u\<close>, and no call fails.
\<close>

definition quiet_env :: "string list \<Rightarrow> env" where
  "quiet_env existing =
     \<lparr>isfile = (\<lambda>p. p \<in> set existing),
      abspath = (\<lambda>p. if startswith p ''/'' then p else ''/home/u/'' @ p),
      downloaded = (\<lambda>url outdir. (path_join outdir ''clip.wav'', ''clip'')),
      fails = (\<lambda>a. None)\<rparr>"

section \<open>Properties of filter_videos\<close>

text \<open>The entry is appended to \<open>result\<close>.\<close>

definition kept ::
  "(string \<Rightarrow> pynum option) \<Rightarrow> (string \<Rightarrow> string) \<Rightarrow> filters \<Rightarrow> video \<Rightarrow> bool" where
  "kept pf lw fs v =
     (\<not> below_min fs (parse_duration pf v) \<and> \<not> above_max fs (parse_duration pf v)
      \<and> \<not> lacks_keyword lw fs v)"

lemma filter_loop_filter:
  "filter_loop pf lw fs vs result = result @ filter (kept pf lw fs) vs"
  by (induction vs arbitrary: result) (simp_all add: kept_def Let_def)

lemma filter_videos_filter: "filter_videos pf lw vs fs = filter (kept pf lw fs) vs"
  by (simp add: filter_videos_def filter_loop_filter)

lemma not_py_le_iff_py_gt: "d \<noteq> NaN \<Longrightarrow> m \<noteq> NaN \<Longrightarrow> (\<not> py_le d m) = py_gt d m"
  by (cases d; cases m) auto

text \<open>
  C1 (as amended). Every entry in the result of \<open>filter_videos\<close> satisfies, for its
  parsed duration \<open>d\<close> (\<open>NA\<close> and any parse failure being 0): when \<open>min_duration\<close> is
  greater than 0, \<open>d <= min_duration\<close> is false, so \<open>d\<close> is strictly greater unless it
  is \<open>nan\<close>; when \<open>max_duration\<close> is set and truthy (not 0), \<open>d > max_duration\<close> is
  false, so \<open>d\<close> is at most \<open>max_duration\<close> unless one of them is \<open>nan\<close>; and the
  title, lowered by \<open>str.lower\<close>, contains every keyword lowered by \<open>str.lower\<close>.
  This holds whatever \<open>float\<close> and \<open>str.lower\<close> do on the texts.
\<close>

theorem filter_videos_included:
  assumes "v \<in> set (filter_videos pf lw vs fs)"
  shows "(\<forall>m. min_duration fs = Some m \<and> py_gt m (Num 0) \<longrightarrow>
            \<not> py_le (parse_duration pf v) m
            \<and> (parse_duration pf v \<noteq> NaN \<longrightarrow> py_gt (parse_duration pf v) m))
       \<and> (\<forall>M. max_duration fs = Some M \<and> truthy M \<longrightarrow>
            \<not> py_gt (parse_duration pf v) M
            \<and> (parse_duration pf v \<noteq> NaN \<and> M \<noteq> NaN \<longrightarrow> py_le (parse_duration pf v) M))
       \<and> (\<forall>kws. keyword_list fs = Some kws \<longrightarrow>
            (\<forall>kw \<in> set kws. py_in (lw kw) (lw (title v))))"
proof -
  from assms have k: "kept pf lw fs v" by (simp add: filter_videos_filter)
  let ?d = "parse_duration pf v"
  have a: "\<not> py_le ?d m \<and> (?d \<noteq> NaN \<longrightarrow> py_gt ?d m)"
    if "min_duration fs = Some m" "py_gt m (Num 0)" for m
  proof -
    from that(2) have "truthy m" "m \<noteq> NaN" by (cases m; auto)+
    with k that(1) have "\<not> py_le ?d m" by (simp add: kept_def below_min_def)
    with \<open>m \<noteq> NaN\<close> show ?thesis using not_py_le_iff_py_gt [of ?d m] by auto
  qed
  have b: "\<not> py_gt ?d M \<and> (?d \<noteq> NaN \<and> M \<noteq> NaN \<longrightarrow> py_le ?d M)"
    if "max_duration fs = Some M" "truthy M" for M
  proof -
    from k that have "\<not> py_gt ?d M" by (simp add: kept_def above_max_def)
    then show ?thesis using not_py_le_iff_py_gt [of ?d M] by auto
  qed
  have c: "\<forall>kw \<in> set kws. py_in (lw kw) (lw (title v))"
    if "keyword_list fs = Some kws" for kws
    using k that by (cases "kws = []") (auto simp: kept_def lacks_keyword_def list_all_iff)
  from a b c show ?thesis by blast
qed

theorem filter_videos_included_witness:
  "\<lparr>vid = ''c'', duration = ''120'', title = ''Foo Bar''\<rparr>
     \<in> set (filter_videos float_small lower
         [\<lparr>vid = ''a'', duration = ''45'', title = ''Foo''\<rparr>,
          \<lparr>vid = ''c'', duration = ''120'', title = ''Foo Bar''\<rparr>]
         \<lparr>keyword_list = Some [''FOO''], min_duration = Some (Num 60),
          max_duration = Some (Num 600)\<rparr>)
   \<and> parse_duration float_small \<lparr>vid = ''c'', duration = ''120'', title = ''Foo Bar''\<rparr> = Num 120
   \<and> py_gt (Num 120) (Num 60) \<and> py_le (Num 120) (Num 600)
   \<and> py_in (lower ''FOO'') (lower ''Foo Bar'')"
  using filter_videos_included
    [of "\<lparr>vid = ''c'', duration = ''120'', title = ''Foo Bar''\<rparr>" float_small lower
        "[\<lparr>vid = ''a'', duration = ''45'', title = ''Foo''\<rparr>,
          \<lparr>vid = ''c'', duration = ''120'', title = ''Foo Bar''\<rparr>]"
        "\<lparr>keyword_list = Some [''FOO''], min_duration = Some (Num 60),
          max_duration = Some (Num 600)\<rparr>"]
  by (simp add: filter_videos_def parse_duration_def float_small_def below_min_def
      above_max_def lacks_keyword_def is_digit_def nat_of_dec_def digit_val_def lower_def
      lower_char_def)

text \<open>
  The claim as first stated fails in two ways. With \<open>max_duration = 0\<close> the maximum
  check is skipped, and an entry of 5 seconds is kept although 5 is not at most 0. An
  entry whose duration text is \<open>nan\<close> passes the minimum check of 60 although
  \<open>nan > 60\<close> is false.
\<close>

theorem filter_videos_included_counterexample:
  "filter_videos float_small lower [\<lparr>vid = ''a'', duration = ''5'', title = ''clip''\<rparr>]
       \<lparr>keyword_list = None, min_duration = None, max_duration = Some (Num 0)\<rparr>
     = [\<lparr>vid = ''a'', duration = ''5'', title = ''clip''\<rparr>]
   \<and> parse_duration float_small \<lparr>vid = ''a'', duration = ''5'', title = ''clip''\<rparr> = Num 5
   \<and> \<not> py_le (Num 5) (Num 0)
   \<and> filter_videos float_small lower [\<lparr>vid = ''b'', duration = ''nan'', title = ''clip''\<rparr>]
       \<lparr>keyword_list = None, min_duration = Some (Num 60), max_duration = None\<rparr>
     = [\<lparr>vid = ''b'', duration = ''nan'', title = ''clip''\<rparr>]
   \<and> parse_duration float_small \<lparr>vid = ''b'', duration = ''nan'', title = ''clip''\<rparr> = NaN
   \<and> py_gt (Num 60) (Num 0) \<and> \<not> py_gt NaN (Num 60)"
  by (simp add: filter_videos_def parse_duration_def float_small_def below_min_def
      above_max_def lacks_keyword_def is_digit_def nat_of_dec_def digit_val_def)

text \<open>
  C2. With \<open>min_duration = 0\<close>, no \<open>max_duration\<close> and an empty keyword list,
  \<open>filter_videos\<close> returns the input list: the same entries in the same order. The
  function only reads \<open>videos\<close> and appends to a list of its own.
\<close>

theorem filter_videos_no_filters:
  "filter_videos pf lw vs
     \<lparr>keyword_list = Some [], min_duration = Some (Num 0), max_duration = None\<rparr> = vs"
  by (simp add: filter_videos_filter kept_def below_min_def above_max_def lacks_keyword_def)

text \<open>
  C3. Filtering is idempotent: filtering a filtered list again with the same filters
  changes nothing.
\<close>

theorem filter_videos_idempotent:
  "filter_videos pf lw (filter_videos pf lw vs fs) fs = filter_videos pf lw vs fs"
  by (simp add: filter_videos_filter)

text \<open>
  C9. The maximum check applies only when \<open>max_duration\<close> is truthy: filtering with
  \<open>max_duration = 0\<close> gives the same result as filtering with no \<open>max_duration\<close>, and
  no duration is rejected by the maximum check then.
\<close>

theorem filter_videos_max_zero:
  "filter_videos pf lw vs (fs\<lparr>max_duration := Some (Num 0)\<rparr>)
     = filter_videos pf lw vs (fs\<lparr>max_duration := None\<rparr>)
   \<and> \<not> above_max (fs\<lparr>max_duration := Some (Num 0)\<rparr>) d
   \<and> \<not> above_max (fs\<lparr>max_duration := None\<rparr>) d"
proof -
  have "kept pf lw (fs\<lparr>max_duration := Some (Num 0)\<rparr>) = kept pf lw (fs\<lparr>max_duration := None\<rparr>)"
    by (rule ext) (simp add: kept_def below_min_def above_max_def lacks_keyword_def)
  then show ?thesis
    by (simp add: filter_videos_filter above_max_def)
qed

section \<open>Properties of format_duration\<close>

lemma digit_char_props:
  assumes "d < 10"
  shows "is_digit (digit_char d) \<and> digit_val (digit_char d) = d"
proof -
  from assms have "d \<in> {0, 1, 2, 3, 4, 5, 6, 7, 8, 9}" by auto
  then show ?thesis
    by (auto simp: digit_char_def is_digit_def digit_val_def)
qed

lemma nat_of_dec_snoc: "nat_of_dec (s @ [c]) = 10 * nat_of_dec s + digit_val c"
  by (simp add: nat_of_dec_def)

lemma dec_all_digits: "list_all is_digit (dec n)"
proof (induction n rule: dec.induct)
  case (1 n)
  then show ?case
    by (subst dec.simps) (simp add: digit_char_props)
qed

lemma nat_of_dec_dec: "nat_of_dec (dec n) = n"
proof (induction n rule: dec.induct)
  case (1 n)
  show ?case
  proof (cases "n < 10")
    case True
    then show ?thesis
      by (subst dec.simps) (simp add: nat_of_dec_def digit_char_props)
  next
    case False
    with 1 have "nat_of_dec (dec (n div 10)) = n div 10" by simp
    with False show ?thesis
      by (subst dec.simps) (simp add: nat_of_dec_snoc digit_char_props)
  qed
qed

lemma length_dec_small: "n < 10 \<Longrightarrow> length (dec n) = 1"
  by (subst dec.simps) simp

lemma length_dec_pos: "0 < length (dec n)"
  by (subst dec.simps) simp

lemma length_dec_large: "10 \<le> n \<Longrightarrow> 2 \<le> length (dec n)"
  using length_dec_pos [of "n div 10"] by (subst dec.simps) (simp add: Suc_le_eq)

lemma length_dec_two: "10 \<le> n \<Longrightarrow> n < 100 \<Longrightarrow> length (dec n) = 2"
  by (subst dec.simps) (simp add: length_dec_small)

lemma fmt_02d_nonneg:
  assumes "0 \<le> n"
  shows "list_all is_digit (fmt_02d n)" "2 \<le> length (fmt_02d n)"
    "int (nat_of_dec (fmt_02d n)) = n" "n < 100 \<Longrightarrow> length (fmt_02d n) = 2"
proof -
  show "list_all is_digit (fmt_02d n)"
    using assms by (simp add: fmt_02d_def dec_all_digits is_digit_def)
  show "2 \<le> length (fmt_02d n)"
    using assms by (simp add: fmt_02d_def length_dec_small length_dec_large)
  have "nat_of_dec (CHR ''0'' # s) = nat_of_dec s" if "length s = 1" for s
    using that by (cases s) (simp_all add: nat_of_dec_def digit_val_def)
  then show "int (nat_of_dec (fmt_02d n)) = n"
    using assms by (simp add: fmt_02d_def nat_of_dec_dec length_dec_small)
  show "length (fmt_02d n) = 2" if "n < 100"
    using assms that by (simp add: fmt_02d_def length_dec_small length_dec_two)
qed

lemma mmss_patternI:
  assumes "list_all is_digit ms" "2 \<le> length ms" "list_all is_digit ss" "length ss = 2"
  shows "mmss_pattern (ms @ '':'' @ ss)"
proof -
  have "\<not> is_digit CHR '':''" by (simp add: is_digit_def)
  with assms(1) have "takeWhile is_digit (ms @ CHR '':'' # ss) = ms"
    "dropWhile is_digit (ms @ CHR '':'' # ss) = CHR '':'' # ss"
    by (simp_all add: list_all_iff takeWhile_append2 dropWhile_append2)
  with assms show ?thesis by (simp add: mmss_pattern_def)
qed

text \<open>
  C4 (as amended). For every finite duration \<open>d >= 0\<close>, \<open>format_duration\<close> returns a
  text that matches \<open>\d{2,}:\d{2}\<close>: a minutes field of at least two digits, a colon and
  a seconds field of exactly two digits. Read back as decimal numbers the fields are
  \<open>floor(d) // 60\<close> and \<open>floor(d) % 60\<close>, so the fraction is cut off, not rounded, and
  the minutes are never wrapped. In particular \<open>format_duration(125.9)\<close> is \<open>02:05\<close>
  (125.9 stands for the double next to it, which has the same integer part).
\<close>

theorem format_duration_mmss:
  assumes "0 \<le> d"
  shows "(\<exists>ms ss. format_duration (Num d) = Inr (ms @ '':'' @ ss)
           \<and> mmss_pattern (ms @ '':'' @ ss)
           \<and> list_all is_digit ms \<and> 2 \<le> length ms \<and> list_all is_digit ss \<and> length ss = 2
           \<and> int (nat_of_dec ms) = \<lfloor>d\<rfloor> div 60 \<and> int (nat_of_dec ss) = \<lfloor>d\<rfloor> mod 60)
       \<and> format_duration (Num (1259 / 10)) = Inr ''02:05''"
proof -
  let ?m = "\<lfloor>d\<rfloor> div 60" and ?s = "\<lfloor>d\<rfloor> mod 60"
  from assms have f: "0 \<le> \<lfloor>d\<rfloor>" by simp
  then have m: "0 \<le> ?m" and s: "0 \<le> ?s" "?s < 100"
    by (simp_all add: pos_imp_zdiv_nonneg_iff)
  have eq: "format_duration (Num d) = Inr (fmt_02d ?m @ '':'' @ fmt_02d ?s)"
    using assms by (simp add: format_duration_def py_int_def)
  have pat: "mmss_pattern (fmt_02d ?m @ '':'' @ fmt_02d ?s)"
    using m s by (intro mmss_patternI fmt_02d_nonneg)
  have ex: "format_duration (Num (1259 / 10)) = Inr ''02:05''"
    by (simp add: format_duration_def py_int_def fmt_02d_def dec.simps digit_char_def)
  show ?thesis
    using eq pat fmt_02d_nonneg [OF m] fmt_02d_nonneg [OF s(1)] s(2) ex by blast
qed

theorem format_duration_mmss_witness:
  "(0::real) \<le> 6000 \<and> format_duration (Num 6000) = Inr ''100:00'' \<and> mmss_pattern ''100:00''
   \<and> \<lfloor>6000::real\<rfloor> div 60 = 100 \<and> \<lfloor>6000::real\<rfloor> mod 60 = 0"
  using format_duration_mmss [of 6000]
  by (simp add: format_duration_def py_int_def fmt_02d_def dec.simps digit_char_def
      mmss_pattern_def is_digit_def)

text \<open>
  The claim as first stated, for every duration, fails below zero and off the finite
  numbers: \<open>format_duration(-1)\<close> is \<open>-1:59\<close>, which does not match the pattern;
  \<open>format_duration(-0.5)\<close> is \<open>00:00\<close> while \<open>floor(-0.5) // 60\<close> is \<open>-1\<close>; and
  \<open>nan\<close> and the infinities raise.
\<close>

theorem format_duration_mmss_counterexample:
  "format_duration (Num (- 1)) = Inr ''-1:59'' \<and> \<not> mmss_pattern ''-1:59''
   \<and> format_duration (Num (- 1 / 2)) = Inr ''00:00'' \<and> \<lfloor>- 1 / 2 :: real\<rfloor> div 60 = - 1
   \<and> format_duration NaN = Inl ValueError \<and> format_duration PosInf = Inl OverflowError"
  by (simp add: format_duration_def py_int_def fmt_02d_def dec.simps digit_char_def
      mmss_pattern_def is_digit_def)

section \<open>Properties of the format selection\<close>

lemma py_in_iff: "py_in needle hay \<longleftrightarrow> (\<exists>pre post. hay = pre @ needle @ post)"
proof (induction hay)
  case Nil
  then show ?case by auto
next
  case (Cons c cs)
  show ?case
  proof
    assume "py_in needle (c # cs)"
    then consider "prefix needle (c # cs)" | "py_in needle cs" by auto
    then show "\<exists>pre post. c # cs = pre @ needle @ post"
    proof cases
      case 1
      then obtain post where "c # cs = needle @ post" by (auto simp: prefix_def)
      then have "c # cs = [] @ needle @ post" by simp
      then show ?thesis by blast
    next
      case 2
      with Cons obtain pre post where "cs = pre @ needle @ post" by blast
      then have "c # cs = (c # pre) @ needle @ post" by simp
      then show ?thesis by blast
    qed
  next
    assume "\<exists>pre post. c # cs = pre @ needle @ post"
    then obtain pre post where e: "c # cs = pre @ needle @ post" by blast
    show "py_in needle (c # cs)"
    proof (cases pre)
      case Nil
      with e have "prefix needle (c # cs)" by (auto simp: prefix_def)
      then show ?thesis by simp
    next
      case (Cons p ps)
      with e have "cs = ps @ needle @ post" by simp
      with Cons.IH have "py_in needle cs" by blast
      then show ?thesis by simp
    qed
  qed
qed

lemma py_split_no_sep: "sep \<notin> set s \<Longrightarrow> py_split sep s = [s]"
  by (induction s) auto

lemma py_split_append: "sep \<notin> set a \<Longrightarrow> py_split sep (a @ sep # rest) = a # py_split sep rest"
  by (induction a) auto

lemma digits_no_slash: "list_all is_digit r \<Longrightarrow> CHR ''/'' \<notin> set r"
  by (auto simp: list_all_iff is_digit_def)

text \<open>
  C5. For a numeric resolution token \<open>r\<close> (a non-empty run of digits) the format
  selection built by \<open>download_videos\<close> has exactly three fallback tiers, separated by
  \<open>/\<close>, and each tier carries the bound \<open>[height<=r]\<close>. For the token \<open>best\<close> it is
  the fixed chain that asks for an m4a (AAC) audio track first and falls back to any
  audio and then to the best single file; no height bound occurs in it.
\<close>

theorem download_videos_fmt_tiers:
  assumes "resolution \<noteq> []" "list_all is_digit resolution"
  shows "py_split CHR ''/'' (download_videos_fmt resolution) =
           [''bestvideo[height<='' @ resolution @ '']+bestaudio[ext=m4a]'',
            ''bestvideo[height<='' @ resolution @ '']+bestaudio'',
            ''best[height<='' @ resolution @ '']'']
       \<and> list_all (py_in (''[height<='' @ resolution @ '']''))
            (py_split CHR ''/'' (download_videos_fmt resolution))
       \<and> py_split CHR ''/'' (download_videos_fmt ''best'') =
           [''bestvideo+bestaudio[ext=m4a]'', ''bestvideo+bestaudio'', ''best'']
       \<and> \<not> py_in ''height'' (download_videos_fmt ''best'')"
proof -
  have nb: "resolution \<noteq> ''best''"
    using assms(2) by (auto simp: is_digit_def)
  have ns: "CHR ''/'' \<notin> set resolution" by (rule digits_no_slash [OF assms(2)])
  let ?b = "''[height<='' @ resolution @ '']''"
  let ?t1 = "''bestvideo[height<='' @ resolution @ '']+bestaudio[ext=m4a]''"
  let ?t2 = "''bestvideo[height<='' @ resolution @ '']+bestaudio''"
  let ?t3 = "''best[height<='' @ resolution @ '']''"
  have f: "download_videos_fmt resolution = ?t1 @ CHR ''/'' # ?t2 @ CHR ''/'' # ?t3"
    using nb by (simp add: download_videos_fmt_def)
  have s: "py_split CHR ''/'' (download_videos_fmt resolution) = [?t1, ?t2, ?t3]"
    unfolding f using ns
    by (subst py_split_append, simp)+ (simp add: py_split_no_sep)
  have "?t1 = ''bestvideo'' @ ?b @ ''+bestaudio[ext=m4a]''" by simp
  then have 1: "py_in ?b ?t1" unfolding py_in_iff by blast
  have "?t2 = ''bestvideo'' @ ?b @ ''+bestaudio''" by simp
  then have 2: "py_in ?b ?t2" unfolding py_in_iff by blast
  have "?t3 = ''best'' @ ?b @ []" by simp
  then have 3: "py_in ?b ?t3" unfolding py_in_iff by blast
  have best: "py_split CHR ''/'' (download_videos_fmt ''best'') =
      [''bestvideo+bestaudio[ext=m4a]'', ''bestvideo+bestaudio'', ''best'']
    \<and> \<not> py_in ''height'' (download_videos_fmt ''best'')"
    by (simp add: download_videos_fmt_def)
  from s 1 2 3 best show ?thesis by simp
qed

theorem download_videos_fmt_tiers_witness:
  "''720'' \<noteq> [] \<and> list_all is_digit ''720''
   \<and> py_split CHR ''/'' (download_videos_fmt ''720'') =
       [''bestvideo[height<=720]+bestaudio[ext=m4a]'', ''bestvideo[height<=720]+bestaudio'',
        ''best[height<=720]'']
   \<and> list_all (py_in ''[height<=720]'') (py_split CHR ''/'' (download_videos_fmt ''720''))"
  using download_videos_fmt_tiers [of "''720''"]
  by (simp add: is_digit_def)

section \<open>Properties of to_jsonable\<close>

lemma collect_map_Inr: "collect (map Inr ys) = Inr ys"
  by (induction ys) simp_all

lemma collect_Inr_length: "collect rs = Inr ys \<Longrightarrow> length ys = length rs"
proof (induction rs arbitrary: ys)
  case Nil
  then show ?case by simp
next
  case (Cons r rs)
  then show ?case by (auto split: sum.splits)
qed



lemma dict_set_keys: "fst ` set (dict_set d k v) = insert k (fst ` set d)"
  by (induction d k v rule: dict_set.induct) auto




lemma dict_set_distinct: "distinct (map fst d) \<Longrightarrow> distinct (map fst (dict_set d k v))"
proof (induction d k v rule: dict_set.induct)
  case (1 k v)
  then show ?case by simp
next
  case (2 k' v' rest k v)
  show ?case
  proof (cases "k' = k")
    case True
    with 2 show ?thesis by simp
  next
    case False
    with 2 have d: "distinct (map fst (dict_set rest k v))" by simp
    from 2 have "k' \<notin> fst ` set rest" by simp
    with False have "k' \<notin> fst ` set (dict_set rest k v)" by (simp add: dict_set_keys)
    with False d show ?thesis by simp
  qed
qed


lemma dict_set_fresh: "k \<notin> fst ` set d \<Longrightarrow> dict_set d k v = d @ [(k, v)]"
  by (induction d k v rule: dict_set.induct) auto


lemma dict_set_length: "length (dict_set d k v) \<le> Suc (length d)"
  by (induction d k v rule: dict_set.induct) auto


lemma map_of_dict_set: "map_of (dict_set d k v) x = (if x = k then Some v else map_of d x)"
  by (induction d k v rule: dict_set.induct) auto



lemma dict_build_Cons: "dict_build d ((k, v) # items) = dict_build (dict_set d k v) items"
  by (simp add: dict_build_def)


lemma dict_build_Nil: "dict_build d [] = d"
  by (simp add: dict_build_def)


lemma dict_build_distinct:
  "distinct (map fst d) \<Longrightarrow> distinct (map fst (dict_build d items))"
  by (induction items arbitrary: d) (auto simp: dict_build_Nil dict_build_Cons dict_set_distinct)


lemma dict_build_keys: "fst ` set (dict_build d items) = fst ` set d \<union> fst ` set items"
proof (induction items arbitrary: d)
  case Nil
  then show ?case by (simp add: dict_build_Nil)
next
  case (Cons a items)
  obtain k v where a: "a = (k, v)" by (cases a)
  have "fst ` set (dict_build (dict_set d k v) items) = insert k (fst ` set d) \<union> fst ` set items"
    by (simp only: Cons dict_set_keys)
  then show ?case by (simp add: a dict_build_Cons)
qed




lemma dict_build_length: "length (dict_build d items) \<le> length d + length items"
proof (induction items arbitrary: d)
  case Nil
  then show ?case by (simp add: dict_build_Nil)
next
  case (Cons a items)
  obtain k v where a: "a = (k, v)" by (cases a)
  show ?case
    using Cons [of "dict_set d k v"] dict_set_length [of d k v]
    by (simp add: a dict_build_Cons)
qed


lemma dict_build_lookup:
  "map_of (dict_build d items) x =
     (case map_of (rev items) x of Some v \<Rightarrow> Some v | None \<Rightarrow> map_of d x)"
proof (induction items arbitrary: d)
  case Nil
  then show ?case by (simp add: dict_build_Nil)
next
  case (Cons a items)
  obtain k v where a: "a = (k, v)" by (cases a)
  show ?case
    by (simp add: a dict_build_Cons Cons map_of_dict_set map_add_def split: option.splits)
qed


lemma dict_build_fresh:
  "distinct (map fst items) \<Longrightarrow> fst ` set d \<inter> fst ` set items = {} \<Longrightarrow>
   dict_build d items = d @ items"
proof (induction items arbitrary: d)
  case Nil
  then show ?case by (simp add: dict_build_Nil)
next
  case (Cons a items)
  obtain k v where a: "a = (k, v)" by (cases a)
  from Cons.prems have f: "k \<notin> fst ` set d" by (auto simp: a)
  have "dict_build (dict_set d k v) items = dict_set d k v @ items"
    using Cons.prems by (intro Cons.IH) (auto simp: a dict_set_keys)
  with f show ?case by (simp add: a dict_build_Cons dict_set_fresh)
qed


lemma dict_of_distinct: "distinct (map fst items) \<Longrightarrow> dict_of items = items"
  using dict_build_fresh [of items "[]"] by (simp add: dict_of_def)

lemma collect_Inr_D: "collect rs = Inr ys \<Longrightarrow> rs = map Inr ys"
proof (induction rs arbitrary: ys)
  case Nil
  then show ?case by simp
next
  case (Cons r rs)
  then show ?case by (auto split: sum.splits)
qed




lemma guarded_returned: "guarded r = Some out \<Longrightarrow> returned out"
  by (cases r) (auto simp: guarded_def returned_def)












lemma foldr_max_ge: "x \<in> set xs \<Longrightarrow> x \<le> foldr max xs (0::nat)"
  by (induction xs) auto

text \<open>
  C7 (as amended). \<open>to_jsonable\<close> is the identity on every JSON-safe value whose
  nesting stays within the recursion limit: None, booleans, integers, floats, strings,
  and lists and string-keyed dicts of such values are returned as they are (an equal
  value; lists and dicts are built anew), when the limit allows the nested calls the
  value needs, one for each level.
\<close>

theorem to_jsonable_identity:
  "json_safe v \<Longrightarrow> stored h v a \<Longrightarrow> nesting v \<le> n \<Longrightarrow> to_jsonable np h n a = Inr v"
proof (induction v arbitrary: a n rule: json_safe.induct)
  case (6 vs)
  from 6(3) obtain xs where h: "h a = HList xs" and r: "list_all2 (stored h) vs xs"
    by (auto split: hobj.splits)
  from 6(4) obtain m where n: "n = Suc m" "foldr max (map nesting vs) 0 \<le> m"
    by (cases n) auto
  have "list_all2 (\<lambda>v x. to_jsonable np h m x = Inr v) vs xs"
    using r
  proof (rule list.rel_mono_strong)
    fix v x assume v: "v \<in> set vs" and s: "stored h v x"
    from v have "nesting v \<le> foldr max (map nesting vs) 0" by (intro foldr_max_ge) simp
    with n(2) have "nesting v \<le> m" by simp
    with 6(1) [OF v _ s] 6(2) v show "to_jsonable np h m x = Inr v"
      by (simp add: list_all_iff)
  qed
  then have "map (to_jsonable np h m) xs = map Inr vs"
    by (induction rule: list_all2_induct) simp_all
  then have "collect (map (to_jsonable np h m) xs) = Inr vs"
    by (simp only: collect_map_Inr)
  with h show ?case by (simp add: n)
next
  case (7 kvs)
  from 7(3) obtain kxs where h: "h a = HDict kxs"
    and r: "list_all2 (\<lambda>(k, v) (k', x). k = k' \<and> stored h v x) kvs kxs"
    by (auto split: hobj.splits)
  from 7(4) obtain m where n: "n = Suc m" "foldr max (map (\<lambda>(k, v). nesting v) kvs) 0 \<le> m"
    by (cases n) auto
  let ?f = "\<lambda>(k, v). case py_str k of Inl e \<Rightarrow> Inl e
        | Inr s \<Rightarrow> (case to_jsonable np h m v of Inl e \<Rightarrow> Inl e | Inr j \<Rightarrow> Inr (KStr s, j))"
  have "list_all2 (\<lambda>kv kx. ?f kx = Inr kv) kvs kxs"
    using r
  proof (rule list.rel_mono_strong)
    fix kv kx assume m: "kv \<in> set kvs"
      and s: "(case kv of (k, v) \<Rightarrow> \<lambda>(k', x). k = k' \<and> stored h v x) kx"
    obtain k v where kv: "kv = (k, v)" by (cases kv)
    obtain k' x where kx: "kx = (k', x)" by (cases kx)
    from s have e: "k' = k" "stored h v x" by (simp_all add: kv kx)
    from m 7(2) have sk: "is_str_key k" "json_safe v" by (auto simp: kv list_all_iff)
    from m have "nesting v \<le> foldr max (map (\<lambda>(k, v). nesting v) kvs) 0"
      by (intro foldr_max_ge) (force simp: kv)
    with n(2) have "nesting v \<le> m" by simp
    with 7(1) [OF m kv [symmetric] sk(2) e(2)] have "to_jsonable np h m x = Inr v" by simp
    with sk(1) show "?f kx = Inr kv" by (cases k) (simp_all add: kv kx e(1))
  qed
  then have "map ?f kxs = map Inr kvs"
    by (induction rule: list_all2_induct) simp_all
  then have "collect (map ?f kxs) = Inr kvs"
    by (simp only: collect_map_Inr)
  with h 7(2) show ?case by (simp add: n dict_of_distinct)
qed (auto simp: gr0_conv_Suc Suc_le_eq)

theorem to_jsonable_identity_witness:
  "json_safe (PDict [(KStr ''text'', PStr ''hi''),
                     (KStr ''segments'', PList [PDict [(KStr ''start'', PFloat (Num 0))], PNone])])
   \<and> stored plain_store
        (PDict [(KStr ''text'', PStr ''hi''),
                (KStr ''segments'', PList [PDict [(KStr ''start'', PFloat (Num 0))], PNone])]) 0
   \<and> nesting (PDict [(KStr ''text'', PStr ''hi''),
                     (KStr ''segments'', PList [PDict [(KStr ''start'', PFloat (Num 0))], PNone])])
       \<le> 4
   \<and> to_jsonable True plain_store 4 0
       = Inr (PDict [(KStr ''text'', PStr ''hi''),
                     (KStr ''segments'', PList [PDict [(KStr ''start'', PFloat (Num 0))], PNone])])"
proof -
  let ?v = "PDict [(KStr ''text'', PStr ''hi''),
                   (KStr ''segments'', PList [PDict [(KStr ''start'', PFloat (Num 0))], PNone])]"
  have 1: "json_safe ?v" by simp
  have 2: "stored plain_store ?v 0" by (simp add: plain_store_def)
  have 3: "nesting ?v \<le> 4" by simp
  from to_jsonable_identity [OF 1 2 3, of True] 1 2 3 show ?thesis by simp
qed

lemma nested_raises: "a + n \<le> L \<Longrightarrow> to_jsonable np (nested_store L) n a = Inl RecursionError"
proof (induction n arbitrary: a)
  case 0
  then show ?case by simp
next
  case (Suc n)
  then have "a < L" "Suc a + n \<le> L" by simp_all
  with Suc.IH [of "Suc a"] show ?case by (simp add: nested_store_def)
qed

lemma nested_stored: "stored (nested_store (a + k)) (nested_list k) a"
proof (induction k arbitrary: a)
  case 0
  then show ?case by (simp add: nested_store_def)
next
  case (Suc k)
  from Suc [of "Suc a"] show ?case by (simp add: nested_store_def)
qed

lemma nested_json_safe: "json_safe (nested_list k)"
  by (induction k) simp_all

lemma nested_nesting: "nesting (nested_list k) = Suc k"
  by (induction k) simp_all

text \<open>
  The claim as first stated, for values nested to any depth, fails: the list and dict
  branches have no \<open>try\<close>, so a JSON-safe value nested as deep as the recursion limit
  raises \<open>RecursionError\<close>. Lists nested 1000 deep around None need 1001 calls and
  raise at the limit 1000.
\<close>

theorem to_jsonable_identity_counterexample:
  "json_safe (nested_list 1000) \<and> stored (nested_store 1000) (nested_list 1000) 0
   \<and> nesting (nested_list 1000) = 1001
   \<and> to_jsonable True (nested_store 1000) 1000 0 = Inl RecursionError"
  using nested_stored [of 0 1000] nested_raises [of 0 1000 1000 True]
  by (simp add: nested_json_safe nested_nesting)

lemma coerced_items:
  assumes "map (\<lambda>(k, v). case py_str k of Inl e \<Rightarrow> Inl e
      | Inr s \<Rightarrow> (case g v of Inl e \<Rightarrow> Inl e | Inr j \<Rightarrow> Inr (KStr s, j))) kxs = map Inr items"
  shows "list_all2 (\<lambda>(k, x) item. \<exists>s. py_str k = Inr s \<and> fst item = KStr s) kxs items"
  using assms
proof (induction kxs arbitrary: items)
  case Nil
  then show ?case by simp
next
  case (Cons kx kxs)
  obtain k x where kx: "kx = (k, x)" by (cases kx)
  from Cons.prems obtain item rest where i: "items = item # rest" by (cases items) auto
  with Cons kx show ?case by (auto split: sum.splits)
qed

lemma coerced_keys:
  assumes "list_all2 (\<lambda>(k, x) item. \<exists>s. py_str k = Inr s \<and> fst item = KStr s) kxs items"
  shows "fst ` set items = {KStr s |s. \<exists>k \<in> fst ` set kxs. py_str k = Inr s}
       \<and> (\<forall>k \<in> fst ` set kxs. returned (py_str k))"
  using assms
proof (induction rule: list_all2_induct)
  case Nil
  then show ?case by simp
next
  case (Cons kx kxs item items)
  obtain k x where kx: "kx = (k, x)" by (cases kx)
  from Cons(1) kx obtain s where s: "py_str k = Inr s" "fst item = KStr s" by auto
  from Cons(3) have a: "fst ` set items = {KStr s |s. \<exists>k \<in> fst ` set kxs. py_str k = Inr s}"
    and b: "\<forall>k \<in> fst ` set kxs. returned (py_str k)" by simp_all
  have "fst ` set (item # items) = insert (KStr s) (fst ` set items)"
    using s(2) by simp
  also have "\<dots> = {KStr s |s. \<exists>k \<in> fst ` set (kx # kxs). py_str k = Inr s}"
    unfolding a using s(1) by (auto simp: kx)
  finally show ?case using b s(1) by (simp add: kx returned_def)
qed

text \<open>
  C10. \<open>to_jsonable\<close> turns every key of a dict into its \<open>str\<close> form: when it
  returns, \<open>str\<close> returned on every key, the keys of the result are exactly the
  \<open>str\<close> forms of the keys of the input, each once, and the result has at most as many
  entries as the input. Two different keys with one \<open>str\<close> form collapse: for
  \<open>{1: "a", "1": "b"}\<close> the result is \<open>{"1": "b"}\<close>, one entry for two, at every
  recursion limit that allows the two nested calls.
\<close>

theorem dict_keys_coerced:
  assumes "h a = HDict kxs" "to_jsonable np h n a = Inr r"
  shows "(\<exists>items. r = PDict items
            \<and> fst ` set items = {KStr s |s. \<exists>k \<in> fst ` set kxs. py_str k = Inr s}
            \<and> distinct (map fst items)
            \<and> length items \<le> length kxs)
       \<and> (\<forall>k \<in> fst ` set kxs. returned (py_str k))
       \<and> to_jsonable np two_keys (Suc (Suc m)) 0 = Inr (PDict [(KStr ''1'', PStr ''b'')])
       \<and> py_str (KInt 1) = py_str (KStr ''1'') \<and> KInt 1 \<noteq> KStr ''1''"
proof -
  from assms(2) obtain d where n: "n = Suc d" by (cases n) auto
  let ?f = "\<lambda>(k, v). case py_str k of Inl e \<Rightarrow> Inl e
      | Inr s \<Rightarrow> (case to_jsonable np h d v of Inl e \<Rightarrow> Inl e | Inr j \<Rightarrow> Inr (KStr s, j))"
  from assms n obtain its where c: "collect (map ?f kxs) = Inr its"
    and r: "r = PDict (dict_of its)"
    by (auto split: sum.splits)
  have d: "dict_of its = dict_build [] its" by (simp add: dict_of_def)
  from c have "map ?f kxs = map Inr its" by (rule collect_Inr_D)
  then have l: "list_all2 (\<lambda>(k, x) item. \<exists>s. py_str k = Inr s \<and> fst item = KStr s) kxs its"
    by (rule coerced_items)
  from coerced_keys [OF l]
  have k: "fst ` set its = {KStr s |s. \<exists>k \<in> fst ` set kxs. py_str k = Inr s}"
    and 0: "\<forall>k \<in> fst ` set kxs. returned (py_str k)" by simp_all
  from k have 1: "fst ` set (dict_of its) = {KStr s |s. \<exists>k \<in> fst ` set kxs. py_str k = Inr s}"
    by (simp add: d dict_build_keys)
  have 2: "distinct (map fst (dict_of its))"
    unfolding d by (rule dict_build_distinct) simp
  from l have "length its = length kxs" by (simp add: list_all2_lengthD)
  then have 3: "length (dict_of its) \<le> length kxs"
    using dict_build_length [of "[]" its] by (simp add: d)
  have 4: "to_jsonable np two_keys (Suc (Suc m)) 0 = Inr (PDict [(KStr ''1'', PStr ''b'')])"
    by (simp add: two_keys_def dict_of_def dict_build_def str_int_def dec.simps digit_char_def)
  have 5: "py_str (KInt 1) = py_str (KStr ''1'')"
    by (simp add: str_int_def dec.simps digit_char_def)
  from r 0 1 2 3 4 5 show ?thesis by simp
qed

theorem dict_keys_coerced_witness:
  "three_keys 0 = HDict [(KInt 1, 1), (KStr ''1'', 2), (KNone, 3)]
   \<and> to_jsonable True three_keys 2 0
       = Inr (PDict [(KStr ''1'', PStr ''b''), (KStr ''None'', PNone)])
   \<and> py_str (KInt 1) = Inr ''1'' \<and> py_str (KStr ''1'') = Inr ''1'' \<and> py_str KNone = Inr ''None''
   \<and> length [(KStr ''1'', PStr ''b''), (KStr ''None'', PNone)]
       < length [(KInt 1, 1::nat), (KStr ''1'', 2), (KNone, 3)]"
proof -
  have h: "three_keys 0 = HDict [(KInt 1, 1), (KStr ''1'', 2), (KNone, 3)]"
    by (simp add: three_keys_def)
  have r: "to_jsonable True three_keys 2 0
       = Inr (PDict [(KStr ''1'', PStr ''b''), (KStr ''None'', PNone)])"
    by (simp add: numeral_2_eq_2 three_keys_def dict_of_def dict_build_def str_int_def dec.simps
        digit_char_def)
  from dict_keys_coerced [OF h r] h r show ?thesis
    by (simp add: str_int_def dec.simps digit_char_def)
qed

section \<open>Properties of cmd_transcribe\<close>

lemma perform_no_failure: "(\<And>a. fl a = None) \<Longrightarrow> perform fl acts = (acts, Return 0)"
  by (induction acts) simp_all

lemma splitext_concat: "fst (splitext p) @ snd (splitext p) = p"
  by (simp add: splitext_def Let_def)

lemma lower_char_slash: "(lower_char c = CHR ''/'') = (c = CHR ''/'')"
proof -
  have "lower_char c = c \<or> lower_char c \<in> set ''abcdefghijklmnopqrstuvwxyz''"
    by (auto simp: lower_char_def split: option.splits if_splits)
  moreover have "lower_char CHR ''/'' = CHR ''/''" by (simp add: lower_char_def)
  ultimately show ?thesis by auto
qed

lemma length_takeWhile_neq: "c \<in> set xs \<Longrightarrow> length (takeWhile (\<lambda>x. x \<noteq> c) xs) < length xs"
  by (induction xs) auto

lemma basename_alt: "basename p = rev (takeWhile (\<lambda>x. x \<noteq> CHR ''/'') (rev p))"
proof (cases "CHR ''/'' \<in> set p")
  case False
  then have "takeWhile (\<lambda>x. x \<noteq> CHR ''/'') (rev p) = rev p"
    by (auto simp: takeWhile_eq_all_conv)
  then have "rev (takeWhile (\<lambda>x. x \<noteq> CHR ''/'') (rev p)) = p"
    by (simp only: rev_rev_ident)
  with False show ?thesis by (simp only: basename_def rfind_def if_False) simp
next
  case True
  let ?t = "takeWhile (\<lambda>x. x \<noteq> CHR ''/'') (rev p)"
  from True have "length ?t < length p"
    using length_takeWhile_neq [of "CHR ''/''" "rev p"] by simp
  then have "nat (rfind CHR ''/'' p + 1) = length p - length ?t"
    using True by (simp add: rfind_def)
  moreover have "rev ?t = drop (length p - length ?t) p"
    by (metis length_rev rev_take rev_rev_ident takeWhile_eq_take)
  ultimately show ?thesis by (simp add: basename_def)
qed

lemma prefix_takeWhile: "list_all P r \<Longrightarrow> prefix r (takeWhile P xs) = prefix r xs"
proof (induction r arbitrary: xs)
  case Nil
  then show ?case by simp
next
  case (Cons a r)
  then show ?case by (cases xs) auto
qed

lemma endswith_basename:
  assumes "CHR ''/'' \<notin> set suf"
  shows "endswith (lower (basename p)) suf = endswith (lower p) suf"
proof -
  have "lower (basename p) = rev (takeWhile (\<lambda>x. x \<noteq> CHR ''/'') (rev (lower p)))"
    by (simp add: basename_alt lower_def rev_map takeWhile_map comp_def lower_char_slash)
  moreover have "list_all (\<lambda>x. x \<noteq> CHR ''/'') (rev suf)"
    using assms by (auto simp: list_all_iff)
  ultimately show ?thesis
    by (simp add: endswith_def prefix_takeWhile)
qed

text \<open>
  C8. For a source that is no URL: when the path is no existing file, or exists but its
  name does not end in \<open>.wav\<close> (whatever the case of the letters), the command
  returns 1, and all it does is print one error line: no directory is made, no file is
  copied or written. When the file exists, its name ends in \<open>.wav\<close> and no call
  fails, the command makes the output directory, copies the file to
  \<open>outdir/base_name.wav\<close> unless source and destination have the same absolute path,
  transcribes the file there and writes \<open>base_name.txt\<close> and \<open>base_name.json\<close>, where
  \<open>base_name\<close> is the file name without its extension (\<open>os.path.splitext\<close>).
\<close>

theorem cmd_transcribe_local:
  assumes "\<not> is_url source"
  shows "(\<not> isfile e source \<or> \<not> endswith (lower (basename source)) ''.wav'' \<longrightarrow>
            snd (cmd_transcribe e source outdir) = Return 1
            \<and> (\<exists>msg. fst (cmd_transcribe e source outdir) = [PrintErr msg])
            \<and> concat (map written (fst (cmd_transcribe e source outdir))) = [])
       \<and> (isfile e source \<and> endswith (lower (basename source)) ''.wav''
            \<and> (\<forall>a. fails e a = None) \<longrightarrow>
            (let base_name = fst (splitext (basename source));
                 dest = path_join outdir (base_name @ ''.wav'')
             in cmd_transcribe e source outdir =
                  ([Makedirs outdir]
                   @ (if abspath e source = abspath e dest then [] else [Copyfile source dest])
                   @ [Transcribe dest,
                      WriteFile (path_join outdir (base_name @ ''.txt'')),
                      WriteFile (path_join outdir (base_name @ ''.json'')),
                      PrintOut (''Saved transcript: '' @ path_join outdir (base_name @ ''.txt'')),
                      PrintOut (''Saved full JSON: '' @ path_join outdir (base_name @ ''.json''))],
                   Return 0)))
       \<and> fst (splitext (basename source)) @ snd (splitext (basename source)) = basename source"
proof -
  have w: "endswith (lower (basename source)) ''.wav'' = endswith (lower source) ''.wav''"
    by (rule endswith_basename) simp
  have 1: "snd (cmd_transcribe e source outdir) = Return 1
            \<and> (\<exists>msg. fst (cmd_transcribe e source outdir) = [PrintErr msg])
            \<and> concat (map written (fst (cmd_transcribe e source outdir))) = []"
    if "\<not> isfile e source \<or> \<not> endswith (lower (basename source)) ''.wav''"
    using that assms unfolding w by (auto simp: cmd_transcribe_def)
  have 2: "(let base_name = fst (splitext (basename source));
                 dest = path_join outdir (base_name @ ''.wav'')
             in cmd_transcribe e source outdir =
                  ([Makedirs outdir]
                   @ (if abspath e source = abspath e dest then [] else [Copyfile source dest])
                   @ [Transcribe dest,
                      WriteFile (path_join outdir (base_name @ ''.txt'')),
                      WriteFile (path_join outdir (base_name @ ''.json'')),
                      PrintOut (''Saved transcript: '' @ path_join outdir (base_name @ ''.txt'')),
                      PrintOut (''Saved full JSON: '' @ path_join outdir (base_name @ ''.json''))],
                   Return 0))"
    if "isfile e source" "endswith (lower (basename source)) ''.wav''" "\<forall>a. fails e a = None"
  proof -
    let ?base = "fst (splitext (basename source))"
    let ?dest = "path_join outdir (?base @ ''.wav'')"
    let ?acts = "[Makedirs outdir]
        @ (if abspath e source \<noteq> abspath e ?dest then [Copyfile source ?dest] else [])
        @ transcribe_and_save ?dest outdir ?base"
    from that(1,2) assms have "cmd_transcribe e source outdir = perform (fails e) ?acts"
      unfolding w by (simp add: cmd_transcribe_def Let_def del: perform.simps)
    also from that(3) have "\<dots> = (?acts, Return 0)"
      by (intro perform_no_failure) simp
    finally show ?thesis
      by (simp add: Let_def transcribe_and_save_def write_transcripts_def)
  qed
  from 1 2 splitext_concat [of "basename source"] show ?thesis by blast
qed


theorem cmd_transcribe_local_witness:
  "\<not> is_url ''notes.mp3''
   \<and> isfile (quiet_env [''notes.mp3'', ''in/Talk.WAV'']) ''notes.mp3''
   \<and> \<not> endswith (lower (basename ''notes.mp3'')) ''.wav''
   \<and> snd (cmd_transcribe (quiet_env [''notes.mp3'', ''in/Talk.WAV'']) ''notes.mp3'' ''out'')
       = Return 1
   \<and> concat (map written
         (fst (cmd_transcribe (quiet_env [''notes.mp3'', ''in/Talk.WAV'']) ''notes.mp3'' ''out'')))
       = []
   \<and> \<not> is_url ''in/Talk.WAV''
   \<and> isfile (quiet_env [''notes.mp3'', ''in/Talk.WAV'']) ''in/Talk.WAV''
   \<and> endswith (lower (basename ''in/Talk.WAV'')) ''.wav''
   \<and> cmd_transcribe (quiet_env [''notes.mp3'', ''in/Talk.WAV'']) ''in/Talk.WAV'' ''out''
       = ([Makedirs ''out'', Copyfile ''in/Talk.WAV'' ''out/Talk.wav'',
           Transcribe ''out/Talk.wav'', WriteFile ''out/Talk.txt'', WriteFile ''out/Talk.json'',
           PrintOut ''Saved transcript: out/Talk.txt'',
           PrintOut ''Saved full JSON: out/Talk.json''], Return 0)"
proof -
  have "\<not> is_url ''notes.mp3''"
    by (simp add: is_url_def startswith_def)
  from cmd_transcribe_local [OF this, of "quiet_env [''notes.mp3'', ''in/Talk.WAV'']" "''out''"]
  show ?thesis
    by (simp add: cmd_transcribe_def is_url_def startswith_def endswith_def quiet_env_def
        basename_def rfind_def splitext_def path_join_def lower_def lower_char_def
        Let_def transcribe_and_save_def write_transcripts_def)
qed

end
